theory Spec2Isabelle
  imports Complex_Main "HOL-Library.List_Lexorder"
begin

section \<open>Python strings\<close>

text \<open>
  A Python \<open>str\<close> is a sequence of Unicode code points, so a string is a list of
  code points and \<open>length\<close> counts what \<open>len\<close> counts. The character classes are
  those of CPython: \<open>\s\<close> and \<open>str.split()\<close> use \<open>str.isspace\<close>, \<open>\w\<close> is
  \<open>str.isalnum\<close> or the underscore, \<open>str.lower\<close> is the full Unicode lower-casing.

  White space is tabulated for all of Unicode; a white-space character is not
  alphanumeric and has no case. Alphanumerics and lower-casing are tabulated for U+0000 to
  U+017F (Basic Latin, Latin-1 Supplement, Latin Extended-A). Above U+017F the tables of
  the Unicode database are not part of the program text: they are the parameter
  \<open>unicode_db\<close>, and what is proved holds for every database. The context rule of
  \<open>str.lower\<close> for the capital sigma U+03A3 is modelled as CPython applies it, over the
  cased and case-ignorable properties of the database.
\<close>

type_synonym codepoint = nat
type_synonym pystr = "codepoint list"

record unicode_db =
  alnum_above :: "codepoint \<Rightarrow> bool"
  lower_above :: "codepoint \<Rightarrow> pystr"
  cased :: "codepoint \<Rightarrow> bool"
  case_ignorable :: "codepoint \<Rightarrow> bool"

definition py :: "string \<Rightarrow> pystr" where
  "py s = map of_char s"

definition isspace :: "codepoint \<Rightarrow> bool" where
  "isspace c \<longleftrightarrow>
     (0x09 \<le> c \<and> c \<le> 0x0D) \<or> (0x1C \<le> c \<and> c \<le> 0x20) \<or> c = 0x85 \<or> c = 0xA0 \<or>
     c = 0x1680 \<or> (0x2000 \<le> c \<and> c \<le> 0x200A) \<or> c = 0x2028 \<or> c = 0x2029 \<or>
     c = 0x202F \<or> c = 0x205F \<or> c = 0x3000"

definition isalnum_latin :: "codepoint \<Rightarrow> bool" where
  \<comment> \<open>\<open>str.isalnum\<close> up to U+017F\<close>
  "isalnum_latin c \<longleftrightarrow>
     (0x30 \<le> c \<and> c \<le> 0x39) \<or> (0x41 \<le> c \<and> c \<le> 0x5A) \<or> (0x61 \<le> c \<and> c \<le> 0x7A) \<or>
     c = 0xAA \<or> c = 0xB2 \<or> c = 0xB3 \<or> c = 0xB5 \<or> c = 0xB9 \<or> c = 0xBA \<or>
     (0xBC \<le> c \<and> c \<le> 0xBE) \<or> (0xC0 \<le> c \<and> c \<le> 0xD6) \<or> (0xD8 \<le> c \<and> c \<le> 0xF6) \<or>
     (0xF8 \<le> c \<and> c \<le> 0x17F)"

definition isword_latin :: "codepoint \<Rightarrow> bool" where
  \<comment> \<open>the class \<open>\w\<close> up to U+017F\<close>
  "isword_latin c \<longleftrightarrow> isalnum_latin c \<or> c = 0x5F"

definition isalnum :: "unicode_db \<Rightarrow> codepoint \<Rightarrow> bool" where
  "isalnum U c = (if c \<le> 0x17F then isalnum_latin c else \<not> isspace c \<and> alnum_above U c)"

definition isword :: "unicode_db \<Rightarrow> codepoint \<Rightarrow> bool" where
  \<comment> \<open>the class \<open>\w\<close> of a \<open>str\<close> pattern\<close>
  "isword U c \<longleftrightarrow> isalnum U c \<or> c = 0x5F"

definition isupper_ascii :: "codepoint \<Rightarrow> bool" where
  "isupper_ascii c \<longleftrightarrow> 0x41 \<le> c \<and> c \<le> 0x5A"

definition lower_latin :: "codepoint \<Rightarrow> pystr" where
  \<comment> \<open>the lower case of a code point up to U+017F. U+0130 is the one code point whose
      lower case is two code points: i, then the combining dot above\<close>
  "lower_latin c =
     (if (0x41 \<le> c \<and> c \<le> 0x5A) \<or> (0xC0 \<le> c \<and> c \<le> 0xD6) \<or> (0xD8 \<le> c \<and> c \<le> 0xDE)
      then [c + 32]
      else if c = 0x130 then [0x69, 0x307]
      else if c = 0x178 then [0xFF]
      else if ((0x100 \<le> c \<and> c \<le> 0x137) \<or> (0x14A \<le> c \<and> c \<le> 0x177)) \<and> even c
      then [c + 1]
      else if ((0x139 \<le> c \<and> c \<le> 0x148) \<or> (0x179 \<le> c \<and> c \<le> 0x17E)) \<and> odd c
      then [c + 1]
      else [c])"

definition lower_cp :: "unicode_db \<Rightarrow> codepoint \<Rightarrow> pystr" where
  \<comment> \<open>the full lower-case mapping of one code point\<close>
  "lower_cp U c =
     (if c \<le> 0x17F then lower_latin c else if isspace c then [c] else lower_above U c)"

definition final_sigma :: "unicode_db \<Rightarrow> pystr \<Rightarrow> pystr \<Rightarrow> bool" where
  \<comment> \<open>the capital sigma is final when, skipping case-ignorable characters, a cased
      character stands before it and none after it; \<open>before\<close> is the text before the
      sigma, nearest character first\<close>
  "final_sigma U before after =
     (case dropWhile (case_ignorable U) before of
        [] \<Rightarrow> False
      | b # _ \<Rightarrow>
          cased U b \<and>
          (case dropWhile (case_ignorable U) after of [] \<Rightarrow> True | a # _ \<Rightarrow> \<not> cased U a))"

fun lower_from :: "unicode_db \<Rightarrow> pystr \<Rightarrow> pystr \<Rightarrow> pystr" where
  \<comment> \<open>the loop of \<open>str.lower\<close>: every code point by its mapping, the capital sigma
      by its context\<close>
  "lower_from U before [] = []"
| "lower_from U before (c # after) =
     (if c = 0x3A3 then [if final_sigma U before after then 0x3C2 else 0x3C3]
      else lower_cp U c) @ lower_from U (c # before) after"

definition str_lower :: "unicode_db \<Rightarrow> pystr \<Rightarrow> pystr" where
  \<comment> \<open>\<open>text.lower()\<close>\<close>
  "str_lower U text = lower_from U [] text"

definition re_sub_nonword :: "unicode_db \<Rightarrow> pystr \<Rightarrow> pystr" where
  \<comment> \<open>\<open>re.sub(r"[^\w\s]", "", text)\<close>\<close>
  "re_sub_nonword U text = filter (\<lambda>c. isword U c \<or> isspace c) text"

text \<open>
  The maximal runs of characters that are not separators, from left to right. With white
  space as separator this is \<open>text.split()\<close>: runs of white space count as one separator
  and no empty string is returned.
\<close>

function runs :: "(codepoint \<Rightarrow> bool) \<Rightarrow> pystr \<Rightarrow> pystr list" where
  "runs sep [] = []"
| "runs sep (c # cs) =
     (if sep c then runs sep cs
      else (c # takeWhile (\<lambda>d. \<not> sep d) cs) # runs sep (dropWhile (\<lambda>d. \<not> sep d) cs))"
  by pat_completeness auto
termination
  by (relation "measure (\<lambda>(sep, s). length s)") (auto simp: less_Suc_eq_le length_dropWhile_le)

definition str_split :: "pystr \<Rightarrow> pystr list" where
  "str_split text = runs isspace text"

fun str_join :: "pystr \<Rightarrow> pystr list \<Rightarrow> pystr" where
  \<comment> \<open>\<open>sep.join(words)\<close>\<close>
  "str_join sep [] = []"
| "str_join sep [w] = w"
| "str_join sep (w # ws) = w @ sep @ str_join sep ws"

fun str_nat :: "nat \<Rightarrow> pystr" where
  \<comment> \<open>\<open>str(n)\<close> of a non-negative integer: its decimal digits\<close>
  "str_nat n = (if n < 10 then [48 + n] else str_nat (n div 10) @ [48 + n mod 10])"

declare str_nat.simps [simp del]

text \<open>
  A database for the examples. Above U+017F it knows the basic Greek and Cyrillic
  alphabets, with the lower case, the cased and the case-ignorable characters that CPython
  has for them and for the tabulated range (the combining marks U+0300 to U+036F are
  case-ignorable), and nothing else.
\<close>

definition sample_db :: unicode_db where
  "sample_db =
     \<lparr>alnum_above = (\<lambda>c. (0x391 \<le> c \<and> c \<le> 0x3A1) \<or> (0x3A3 \<le> c \<and> c \<le> 0x3A9) \<or>
                          (0x3B1 \<le> c \<and> c \<le> 0x3C9) \<or> (0x410 \<le> c \<and> c \<le> 0x44F)),
      lower_above = (\<lambda>c. if (0x391 \<le> c \<and> c \<le> 0x3A1) \<or> (0x3A3 \<le> c \<and> c \<le> 0x3A9) \<or>
                              (0x410 \<le> c \<and> c \<le> 0x42F)
                           then [c + 32] else [c]),
      cased = (\<lambda>c. (0x41 \<le> c \<and> c \<le> 0x5A) \<or> (0x61 \<le> c \<and> c \<le> 0x7A) \<or> c = 0xAA \<or>
                    c = 0xB5 \<or> c = 0xBA \<or> (0xC0 \<le> c \<and> c \<le> 0xD6) \<or>
                    (0xD8 \<le> c \<and> c \<le> 0xF6) \<or> (0xF8 \<le> c \<and> c \<le> 0x17F) \<or>
                    (0x391 \<le> c \<and> c \<le> 0x3A1) \<or> (0x3A3 \<le> c \<and> c \<le> 0x3A9) \<or>
                    (0x3B1 \<le> c \<and> c \<le> 0x3C9) \<or> (0x410 \<le> c \<and> c \<le> 0x44F)),
      case_ignorable = (\<lambda>c. c = 0x27 \<or> c = 0x2E \<or> c = 0x3A \<or> c = 0x5E \<or> c = 0x60 \<or>
                             c = 0xA8 \<or> c = 0xAD \<or> c = 0xAF \<or> c = 0xB4 \<or> c = 0xB7 \<or>
                             c = 0xB8 \<or> (0x300 \<le> c \<and> c \<le> 0x36F))\<rparr>"

section \<open>The normalizer\<close>

definition STOPWORDS :: "pystr list" where
  "STOPWORDS = map py
     [''and'', ''or'', ''the'', ''is'', ''in'', ''to'', ''a'', ''of'', ''on'', ''for'', ''with'',
      ''it'', ''as'', ''at'', ''this'', ''that'', ''an'', ''be'', ''are'', ''by'', ''was'',
      ''were'', ''from'', ''has'', ''have'', ''had'', ''but'', ''not'', ''you'', ''we'', ''they'',
      ''he'', ''she'', ''i'', ''me'', ''my'']"

definition clean_text :: "unicode_db \<Rightarrow> pystr \<Rightarrow> pystr" where
  "clean_text U text =
     (let text = re_sub_nonword U text;
          text = str_lower U text;
          words = str_split text;
          filtered_words = filter (\<lambda>word. word \<notin> set STOPWORDS) words
      in str_join (py '' '') filtered_words)"

definition normalize :: "unicode_db \<Rightarrow> pystr \<Rightarrow> pystr list" where
  \<comment> \<open>the token sequence of a text, as every caller takes it: \<open>clean_text(text).split()\<close>\<close>
  "normalize U text = str_split (clean_text U text)"


datatype error = ValueError | IndexError | TypeError



definition lower_closed :: "unicode_db \<Rightarrow> bool" where
  \<comment> \<open>two facts of the Unicode database: but for U+0130, the lower case of a word
      character consists of word characters; and a lower-cased character is its own
      lower case and is not the capital sigma\<close>
  "lower_closed U \<longleftrightarrow>
     (\<forall>c d. isword U c \<and> c \<noteq> 0x130 \<and> d \<in> set (lower_cp U c) \<longrightarrow> isword U d) \<and>
     (\<forall>c d. d \<in> set (lower_cp U c) \<longrightarrow> lower_cp U d = [d] \<and> d \<noteq> 0x3A3) \<and>
     isword U 0x3C2 \<and> isword U 0x3C3 \<and> lower_cp U 0x3C2 = [0x3C2] \<and> lower_cp U 0x3C3 = [0x3C3]"

section \<open>The corpus, the counter and the inverted index\<close>

record post =
  Title :: pystr
  Body :: pystr

definition content :: "post \<Rightarrow> pystr" where
  \<comment> \<open>\<open>title + " " + body\<close>, both cells already through \<open>str\<close>\<close>
  "content row = Title row @ py '' '' @ Body row"

fun counter_add :: "pystr \<Rightarrow> (pystr \<times> nat) list \<Rightarrow> (pystr \<times> nat) list" where
  \<comment> \<open>\<open>counts[w] = counts.get(w, 0) + 1\<close> on an insertion-ordered dict\<close>
  "counter_add w [] = [(w, 1)]"
| "counter_add w ((k, n) # kvs) =
     (if k = w then (k, n + 1) # kvs else (k, n) # counter_add w kvs)"

definition Counter :: "pystr list \<Rightarrow> (pystr \<times> nat) list" where
  "Counter ws = fold counter_add ws []"


definition most_common :: "nat \<Rightarrow> (pystr \<times> nat) list \<Rightarrow> (pystr \<times> nat) list" where
  \<comment> \<open>\<open>heapq.nlargest(n, items, key=itemgetter(1))\<close>, that is
      \<open>sorted(items, key=itemgetter(1), reverse=True)[:n]\<close>: a stable sort\<close>
  "most_common n word_counts = take n (sort_key (\<lambda>(w, c). - int c) word_counts)"

definition topTerms :: "pystr list \<Rightarrow> nat \<Rightarrow> (pystr \<times> nat) list" where
  "topTerms tokenStream k = most_common k (Counter tokenStream)"

fun index_append :: "pystr \<Rightarrow> nat \<Rightarrow> (pystr \<times> nat list) list \<Rightarrow> (pystr \<times> nat list) list" where
  \<comment> \<open>\<open>if word not in inverted_index: inverted_index[word] = []\<close>, then
      \<open>inverted_index[word].append(pid)\<close>\<close>
  "index_append word pid [] = [(word, [pid])]"
| "index_append word pid ((k, v) # kvs) =
     (if k = word then (k, v @ [pid]) # kvs else (k, v) # index_append word pid kvs)"

definition index_get :: "(pystr \<times> nat list) list \<Rightarrow> pystr \<Rightarrow> nat list" where
  \<comment> \<open>the postings recorded for a word, none for a word never seen\<close>
  "index_get inverted_index word =
     (case map_of inverted_index word of None \<Rightarrow> [] | Some post_list \<Rightarrow> post_list)"

fun index_rows ::
  "unicode_db \<Rightarrow> nat \<Rightarrow> post list \<Rightarrow> (pystr \<times> nat list) list \<Rightarrow> (pystr \<times> nat list) list" where
  \<comment> \<open>the loop over \<open>df.iterrows()\<close>; \<open>post_index\<close> runs over the default index 0, 1, ...\<close>
  "index_rows U post_index [] inverted_index = inverted_index"
| "index_rows U post_index (row # rows) inverted_index =
     index_rows U (post_index + 1) rows
       (fold (\<lambda>word idx. index_append word (post_index + 1) idx)
          (str_split (clean_text U (content row))) inverted_index)"

definition inverted_index :: "unicode_db \<Rightarrow> post list \<Rightarrow> (pystr \<times> nat list) list" where
  "inverted_index U df = index_rows U 0 df []"

definition common_words :: "unicode_db \<Rightarrow> nat \<Rightarrow> post list \<Rightarrow> (pystr \<times> nat) list" where
  \<comment> \<open>the source's literal 15 is the parameter \<open>k\<close>\<close>
  "common_words U k df =
     (let all_text = str_join (py '' '') (map content df);
          cleaned_text = clean_text U all_text;
          word_counts = Counter (str_split cleaned_text)
      in most_common k word_counts)"

definition post_lists :: "unicode_db \<Rightarrow> nat \<Rightarrow> post list \<Rightarrow> (pystr \<times> nat list) list" where
  \<comment> \<open>each common word with \<open>sorted(set(post_list))\<close>\<close>
  "post_lists U k df =
     concat (map (\<lambda>(word, _).
        case map_of (inverted_index U df) word of
          None \<Rightarrow> []
        | Some post_list \<Rightarrow> [(word, sort (remdups post_list))]) (common_words U k df))"

definition word_post_data :: "unicode_db \<Rightarrow> nat \<Rightarrow> post list \<Rightarrow> (pystr \<times> pystr) list" where
  \<comment> \<open>the rows \<open>{"word": word, "posts": post_string}\<close>\<close>
  "word_post_data U k df =
     map (\<lambda>(word, ids). (word, str_join (py '','') (map str_nat ids))) (post_lists U k df)"

definition build_inverse_index_with_locations ::
  "unicode_db \<Rightarrow> post list \<Rightarrow> (pystr \<times> pystr) list" where
  "build_inverse_index_with_locations U df = word_post_data U 15 df"

text \<open>
  Three documents whose title and body give the texts \<open>funny cats jumping\<close>,
  \<open>funny dogs running\<close> and \<open>cats and dogs playing\<close>.
\<close>

definition example_corpus :: "post list" where
  "example_corpus =
     [\<lparr>Title = py ''funny'', Body = py ''cats jumping''\<rparr>,
      \<lparr>Title = py ''funny'', Body = py ''dogs running''\<rparr>,
      \<lparr>Title = py ''cats'', Body = py ''and dogs playing''\<rparr>]"

text \<open>
  Two documents, one Latin and one Cyrillic: \<open>cats\<close> with body \<open>x\<close>, and the
  word U+041A U+043E U+0442 (a capital and two small Cyrillic letters) with body U+044F.
\<close>

definition mixed_corpus :: "post list" where
  "mixed_corpus =
     [\<lparr>Title = py ''cats'', Body = py ''x''\<rparr>,
      \<lparr>Title = [0x41A, 0x43E, 0x442], Body = [0x44F]\<rparr>]"

section \<open>TF-IDF\<close>

text \<open>
  \<open>TfidfVectorizer()\<close> with its defaults: the document is lower-cased, its tokens are
  the matches of \<open>\b\w\w+\b\<close> (the maximal runs of word characters that have at least two
  characters), the feature names are the sorted distinct tokens, a corpus without any
  token is refused with \<open>ValueError\<close>, the term frequency is the count, the inverse
  document frequency is \<open>ln ((1 + n) / (1 + df)) + 1\<close> and every row is scaled to
  Euclidean length one. The weights are real numbers here, where the library computes in
  double precision.
\<close>

record tfidf =
  terms :: "pystr list"
  tfidf_matrix :: "real list list"

datatype query_result = Score real | NotFound

definition analyze :: "unicode_db \<Rightarrow> pystr \<Rightarrow> pystr list" where
  "analyze U doc = filter (\<lambda>t. 2 \<le> length t) (runs (\<lambda>c. \<not> isword U c) (str_lower U doc))"

definition feature_names :: "unicode_db \<Rightarrow> pystr list \<Rightarrow> pystr list" where
  "feature_names U docs = sort (remdups (concat (map (analyze U) docs)))"

definition idf :: "unicode_db \<Rightarrow> pystr list \<Rightarrow> pystr \<Rightarrow> real" where
  "idf U docs t =
     ln ((1 + real (length docs)) /
         (1 + real (length (filter (\<lambda>d. t \<in> set (analyze U d)) docs)))) + 1"

definition l2_normalize :: "real list \<Rightarrow> real list" where
  "l2_normalize row =
     (let norm = sqrt (sum_list (map (\<lambda>x. x * x) row))
      in if norm = 0 then row else map (\<lambda>x. x / norm) row)"

definition tfidf_row :: "unicode_db \<Rightarrow> pystr list \<Rightarrow> pystr \<Rightarrow> real list" where
  "tfidf_row U docs doc =
     l2_normalize
       (map (\<lambda>t. real (count_list (analyze U doc) t) * idf U docs t) (feature_names U docs))"

definition fit_transform :: "unicode_db \<Rightarrow> pystr list \<Rightarrow> error + tfidf" where
  "fit_transform U docs =
     (if feature_names U docs = [] then Inl ValueError
      else Inr \<lparr>terms = feature_names U docs, tfidf_matrix = map (tfidf_row U docs) docs\<rparr>)"

definition vocabulary_get :: "tfidf \<Rightarrow> pystr \<Rightarrow> nat option" where
  \<comment> \<open>\<open>vectorizer.vocabulary_.get(term)\<close>: the column of a feature name\<close>
  "vocabulary_get m term = map_of (zip (terms m) [0..<length (terms m)]) term"

definition score_term :: "tfidf \<Rightarrow> pystr \<Rightarrow> error + query_result" where
  "score_term m term =
     (if term \<in> set (terms m) then
        (case vocabulary_get m term of
           None \<Rightarrow> Inl IndexError
         | Some term_index \<Rightarrow> Inr (Score (sum_list (map (\<lambda>row. row ! term_index) (tfidf_matrix m)))))
      else Inr NotFound)"

fun score_terms :: "tfidf \<Rightarrow> pystr list \<Rightarrow> error + (pystr \<times> query_result) list" where
  "score_terms m [] = Inr []"
| "score_terms m (term # query_terms) =
     (case score_term m term of
        Inl e \<Rightarrow> Inl e
      | Inr r \<Rightarrow> (case score_terms m query_terms of
                    Inl e \<Rightarrow> Inl e
                  | Inr rs \<Rightarrow> Inr ((term, r) # rs)))"

definition cleaned_content :: "unicode_db \<Rightarrow> post list \<Rightarrow> pystr list" where
  "cleaned_content U df = map (\<lambda>row. clean_text U (content row)) df"

definition matrix_terms :: "unicode_db \<Rightarrow> post list \<Rightarrow> error + pystr list" where
  \<comment> \<open>\<open>vectorizer.get_feature_names_out()\<close> after the fit: the columns of the matrix\<close>
  "matrix_terms U df =
     (case fit_transform U (cleaned_content U df) of Inl e \<Rightarrow> Inl e | Inr m \<Rightarrow> Inr (terms m))"

definition calculate_tfidf ::
  "unicode_db \<Rightarrow> post list \<Rightarrow> pystr \<Rightarrow> error + (pystr \<times> query_result) list" where
  \<comment> \<open>the printed lines, or the exception that the handler prints and raises again\<close>
  "calculate_tfidf U df query =
     (case fit_transform U (cleaned_content U df) of
        Inl e \<Rightarrow> Inl e
      | Inr m \<Rightarrow> score_terms m (str_split (clean_text U query)))"


section \<open>Properties\<close>

lemma runs_all:
  "\<forall>w\<in>set (runs sep s). w \<noteq> [] \<and> (\<forall>c\<in>set w. \<not> sep c) \<and> set w \<subseteq> set s"
proof (induction sep s rule: runs.induct)
  case (1 sep)
  show ?case by simp
next
  case (2 sep c cs)
  show ?case
  proof (cases "sep c")
    case True
    from 2(1)[OF True]
    have "\<forall>w\<in>set (runs sep cs). w \<noteq> [] \<and> (\<forall>c\<in>set w. \<not> sep c) \<and> set w \<subseteq> set (c # cs)"
      by auto
    with True show ?thesis by simp
  next
    case False
    let ?t = "takeWhile (\<lambda>d. \<not> sep d) cs" and ?d = "dropWhile (\<lambda>d. \<not> sep d) cs"
    have t: "\<forall>x\<in>set ?t. \<not> sep x \<and> x \<in> set cs"
      by (auto dest: set_takeWhileD)
    have sub: "set ?d \<subseteq> set cs"
      by (auto dest: set_dropWhileD)
    have r: "\<forall>w\<in>set (runs sep ?d). w \<noteq> [] \<and> (\<forall>c\<in>set w. \<not> sep c) \<and> set w \<subseteq> set (c # cs)"
    proof
      fix w
      assume "w \<in> set (runs sep ?d)"
      with 2(2)[OF False] have "w \<noteq> []" "\<forall>c\<in>set w. \<not> sep c" "set w \<subseteq> set ?d"
        by blast+
      with sub show "w \<noteq> [] \<and> (\<forall>c\<in>set w. \<not> sep c) \<and> set w \<subseteq> set (c # cs)"
        by auto
    qed
    have h: "(c # ?t) \<noteq> [] \<and> (\<forall>x\<in>set (c # ?t). \<not> sep x) \<and> set (c # ?t) \<subseteq> set (c # cs)"
      using False t by auto
    have eq: "runs sep (c # cs) = (c # ?t) # runs sep ?d"
      using False by simp
    show ?thesis
      unfolding eq
    proof
      fix w
      assume "w \<in> set ((c # ?t) # runs sep ?d)"
      then have "w = c # ?t \<or> w \<in> set (runs sep ?d)"
        by simp
      then show "w \<noteq> [] \<and> (\<forall>c\<in>set w. \<not> sep c) \<and> set w \<subseteq> set (c # cs)"
        using h r by blast
    qed
  qed
qed

lemma runs_word:
  "w \<in> set (runs sep s) \<Longrightarrow> w \<noteq> [] \<and> (\<forall>c\<in>set w. \<not> sep c) \<and> set w \<subseteq> set s"
  using runs_all[of sep s] by blast

lemma runs_single:
  "w \<noteq> [] \<Longrightarrow> \<forall>c\<in>set w. \<not> sep c \<Longrightarrow> runs sep w = [w]"
  by (cases w) (simp_all add: takeWhile_eq_all_conv[THEN iffD2] dropWhile_eq_Nil_conv[THEN iffD2])

lemma runs_word_sep:
  "w \<noteq> [] \<Longrightarrow> \<forall>c\<in>set w. \<not> sep c \<Longrightarrow> sep x \<Longrightarrow> runs sep (w @ x # rest) = w # runs sep rest"
  by (cases w) simp_all

lemma runs_join:
  "sep x \<Longrightarrow> \<forall>w\<in>set ws. w \<noteq> [] \<and> (\<forall>c\<in>set w. \<not> sep c) \<Longrightarrow> runs sep (str_join [x] ws) = ws"
proof (induction ws)
  case Nil
  then show ?case by simp
next
  case (Cons w ws)
  show ?case
  proof (cases ws)
    case Nil
    with Cons.prems show ?thesis by (simp add: runs_single)
  next
    case (Cons v vs)
    with Cons.prems Cons.IH show ?thesis by (simp add: runs_word_sep)
  qed
qed

lemma runs_cong:
  "\<forall>c\<in>set s. sep1 c = sep2 c \<Longrightarrow> runs sep1 s = runs sep2 s"
proof (induction sep1 s rule: runs.induct)
  case (1 sep)
  show ?case by simp
next
  case (2 sep c cs)
  have eq: "\<forall>x\<in>set cs. sep x = sep2 x" and c: "sep c = sep2 c"
    using 2(3) by simp_all
  have tw: "takeWhile (\<lambda>d. \<not> sep d) cs = takeWhile (\<lambda>d. \<not> sep2 d) cs"
    by (rule takeWhile_cong) (simp_all add: eq)
  have dw: "dropWhile (\<lambda>d. \<not> sep d) cs = dropWhile (\<lambda>d. \<not> sep2 d) cs"
    by (rule dropWhile_cong) (simp_all add: eq)
  show ?case
  proof (cases "sep c")
    case True
    from 2(1)[OF True eq] True c show ?thesis by simp
  next
    case False
    have "\<forall>x\<in>set (dropWhile (\<lambda>d. \<not> sep d) cs). sep x = sep2 x"
      using eq set_dropWhileD by fast
    from 2(2)[OF False this]
    have "runs sep (dropWhile (\<lambda>d. \<not> sep d) cs) = runs sep2 (dropWhile (\<lambda>d. \<not> sep2 d) cs)"
      by (simp add: dw)
    moreover have "\<not> sep2 c" using False c by simp
    ultimately show ?thesis using False tw by simp
  qed
qed


lemma py_space: "py '' '' = [32]"
  by (simp add: py_def)

lemma isspace_32: "isspace 32"
  by (simp add: isspace_def)

lemma normalize_eq:
  "normalize U s =
     filter (\<lambda>word. word \<notin> set STOPWORDS) (str_split (str_lower U (re_sub_nonword U s)))"
proof -
  let ?ws = "filter (\<lambda>word. word \<notin> set STOPWORDS) (runs isspace (str_lower U (re_sub_nonword U s)))"
  have "\<forall>w\<in>set ?ws. w \<noteq> [] \<and> (\<forall>c\<in>set w. \<not> isspace c)"
    using runs_word[of _ isspace] by auto
  with isspace_32 have "runs isspace (str_join [32] ?ws) = ?ws"
    by (rule runs_join[of isspace 32])
  then show ?thesis
    by (simp add: normalize_def clean_text_def str_split_def py_space)
qed

lemma isword_latin_bounds: "isword_latin c \<Longrightarrow> 0x30 \<le> c \<and> c \<le> 0x17F \<and> c \<noteq> 0x85 \<and> c \<noteq> 0xA0"
  unfolding isword_latin_def isalnum_latin_def by auto

lemma isspace_bounds: "isspace c \<Longrightarrow> c \<le> 0x20 \<or> c = 0x85 \<or> c = 0xA0 \<or> 0x1680 \<le> c"
  unfolding isspace_def by auto

lemma isword_latin_not_isspace: "isword_latin c \<Longrightarrow> \<not> isspace c"
  using isword_latin_bounds[of c] isspace_bounds[of c] by auto

lemma isword_latin_az: "0x61 \<le> d \<Longrightarrow> d \<le> 0x7A \<Longrightarrow> isword_latin d"
  by (simp add: isword_latin_def isalnum_latin_def)

lemma isword_latin_supp: "0xE0 \<le> d \<Longrightarrow> d \<le> 0xF6 \<Longrightarrow> isword_latin d"
  by (simp add: isword_latin_def isalnum_latin_def)

lemma isword_latin_ext: "0xF8 \<le> d \<Longrightarrow> d \<le> 0x17F \<Longrightarrow> isword_latin d"
  by (simp add: isword_latin_def isalnum_latin_def)

lemma lower_latin_id:
  "\<not> (0x41 \<le> d \<and> d \<le> 0x5A) \<Longrightarrow> \<not> (0xC0 \<le> d \<and> d \<le> 0xDE) \<Longrightarrow> d < 0x100 \<Longrightarrow> lower_latin d = [d]"
  by (auto simp: lower_latin_def)

lemma lower_latin_id_odd:
  "odd d \<Longrightarrow> 0x100 \<le> d \<Longrightarrow> d \<le> 0x138 \<or> 0x14B \<le> d \<and> d \<le> 0x178 \<Longrightarrow> lower_latin d = [d]"
  by (auto simp: lower_latin_def)

lemma lower_latin_id_even:
  "even d \<Longrightarrow> 0x13A \<le> d \<and> d \<le> 0x149 \<or> 0x17A \<le> d \<and> d \<le> 0x17F \<Longrightarrow> lower_latin d = [d]"
  by (auto simp: lower_latin_def)

lemma lower_latin_cases:
  "(lower_latin c = [c + 32] \<and> (0x41 \<le> c \<and> c \<le> 0x5A \<or> 0xC0 \<le> c \<and> c \<le> 0xD6 \<or> 0xD8 \<le> c \<and> c \<le> 0xDE)) \<or>
   (lower_latin c = [0x69, 0x307] \<and> c = 0x130) \<or>
   (lower_latin c = [0xFF] \<and> c = 0x178) \<or>
   (lower_latin c = [c + 1] \<and> even c \<and> (0x100 \<le> c \<and> c \<le> 0x137 \<or> 0x14A \<le> c \<and> c \<le> 0x177)) \<or>
   (lower_latin c = [c + 1] \<and> odd c \<and> (0x139 \<le> c \<and> c \<le> 0x148 \<or> 0x179 \<le> c \<and> c \<le> 0x17E)) \<or>
   (lower_latin c = [c] \<and> \<not> (0x41 \<le> c \<and> c \<le> 0x5A))"
  unfolding lower_latin_def by (simp del: One_nat_def)

lemma lower_latin_space: "isspace c \<Longrightarrow> lower_latin c = [c]"
proof -
  assume "isspace c"
  then consider "c \<le> 0x20 \<or> c = 0x85 \<or> c = 0xA0" | "0x1680 \<le> c"
    using isspace_bounds by blast
  then show ?thesis
  proof cases
    case 1
    then have "\<not> (0x41 \<le> c \<and> c \<le> 0x5A)" "\<not> (0xC0 \<le> c \<and> c \<le> 0xDE)" "c < 0x100"
      by auto
    then show ?thesis by (rule lower_latin_id)
  next
    case 2
    then show ?thesis by (simp add: lower_latin_def)
  qed
qed

lemma lower_latin_not_upper: "d \<in> set (lower_latin c) \<Longrightarrow> \<not> isupper_ascii d"
  using lower_latin_cases[of c] unfolding isupper_ascii_def by auto

lemma lower_latin_isword:
  assumes "isword_latin c" and "d \<in> set (lower_latin c)"
  shows "isword_latin d \<or> (c = 0x130 \<and> d = 0x307)"
proof -
  consider
    (up) "lower_latin c = [c + 32]" "0x41 \<le> c \<and> c \<le> 0x5A \<or> 0xC0 \<le> c \<and> c \<le> 0xD6 \<or> 0xD8 \<le> c \<and> c \<le> 0xDE"
  | (dot) "lower_latin c = [0x69, 0x307]" "c = 0x130"
  | (y) "lower_latin c = [0xFF]"
  | (ev) "lower_latin c = [c + 1]" "0x100 \<le> c \<and> c \<le> 0x137 \<or> 0x14A \<le> c \<and> c \<le> 0x177"
  | (od) "lower_latin c = [c + 1]" "0x139 \<le> c \<and> c \<le> 0x148 \<or> 0x179 \<le> c \<and> c \<le> 0x17E"
  | (id) "lower_latin c = [c]"
    using lower_latin_cases[of c] by blast
  then show ?thesis
  proof cases
    case up
    with assms(2) have d: "d = c + 32" by simp
    from up(2) have "0x61 \<le> d \<and> d \<le> 0x7A \<or> 0xE0 \<le> d \<and> d \<le> 0xF6 \<or> 0xF8 \<le> d \<and> d \<le> 0x17F"
      unfolding d by auto
    then show ?thesis using isword_latin_az isword_latin_supp isword_latin_ext by blast
  next
    case dot
    with assms(2) have "d = 0x69 \<or> d = 0x307" by simp
    then show ?thesis using isword_latin_az[of d] dot(2) by auto
  next
    case y
    with assms(2) have "d = 0xFF" by simp
    then show ?thesis using isword_latin_ext[of d] by simp
  next
    case ev
    with assms(2) have d: "d = c + 1" by simp
    from ev(2) have "0xF8 \<le> d \<and> d \<le> 0x17F" unfolding d by auto
    then show ?thesis using isword_latin_ext by blast
  next
    case od
    with assms(2) have d: "d = c + 1" by simp
    from od(2) have "0xF8 \<le> d \<and> d \<le> 0x17F" unfolding d by auto
    then show ?thesis using isword_latin_ext by blast
  next
    case id
    with assms show ?thesis by simp
  qed
qed

lemma lower_latin_fixed:
  assumes "c \<noteq> 0x130" and "d \<in> set (lower_latin c)"
  shows "lower_latin d = [d]"
proof -
  consider
    (up) "lower_latin c = [c + 32]" "0x41 \<le> c \<and> c \<le> 0x5A \<or> 0xC0 \<le> c \<and> c \<le> 0xD6 \<or> 0xD8 \<le> c \<and> c \<le> 0xDE"
  | (dot) "c = 0x130"
  | (y) "lower_latin c = [0xFF]"
  | (ev) "lower_latin c = [c + 1]" "even c" "0x100 \<le> c \<and> c \<le> 0x137 \<or> 0x14A \<le> c \<and> c \<le> 0x177"
  | (od) "lower_latin c = [c + 1]" "odd c" "0x139 \<le> c \<and> c \<le> 0x148 \<or> 0x179 \<le> c \<and> c \<le> 0x17E"
  | (id) "lower_latin c = [c]"
    using lower_latin_cases[of c] by blast
  then show ?thesis
  proof cases
    case up
    with assms(2) have d: "d = c + 32" by simp
    from up(2) have "\<not> (0x41 \<le> d \<and> d \<le> 0x5A)" "\<not> (0xC0 \<le> d \<and> d \<le> 0xDE)" "d < 0x100"
      unfolding d by auto
    then show ?thesis by (rule lower_latin_id)
  next
    case dot
    with assms(1) show ?thesis by simp
  next
    case y
    with assms(2) have "d = 0xFF" by simp
    then show ?thesis by (simp add: lower_latin_def)
  next
    case ev
    with assms(2) have d: "d = c + 1" by simp
    from ev(2) have "odd d" unfolding d by simp
    moreover from ev(3) have "0x100 \<le> d" "d \<le> 0x138 \<or> 0x14B \<le> d \<and> d \<le> 0x178"
      unfolding d by auto
    ultimately show ?thesis by (rule lower_latin_id_odd)
  next
    case od
    with assms(2) have d: "d = c + 1" by simp
    from od(2) have "even d" unfolding d by simp
    moreover from od(3) have "0x13A \<le> d \<and> d \<le> 0x149 \<or> 0x17A \<le> d \<and> d \<le> 0x17F"
      unfolding d by auto
    ultimately show ?thesis by (rule lower_latin_id_even)
  next
    case id
    with assms(2) show ?thesis by simp
  qed
qed

lemma lower_latin_idem: "d \<in> set (lower_latin c) \<Longrightarrow> lower_latin d = [d]"
proof (cases "c = 0x130")
  case True
  assume "d \<in> set (lower_latin c)"
  with True have "d = 0x69 \<or> d = 0x307" by (simp add: lower_latin_def)
  then show ?thesis by (auto simp: lower_latin_def)
next
  case False
  assume "d \<in> set (lower_latin c)"
  with False show ?thesis by (rule lower_latin_fixed)
qed

lemma lower_latin_range:
  assumes "c \<le> 0x17F" and "d \<in> set (lower_latin c)"
  shows "d \<le> 0x17F \<or> d = 0x307"
proof -
  consider
    (up) "lower_latin c = [c + 32]" "0x41 \<le> c \<and> c \<le> 0x5A \<or> 0xC0 \<le> c \<and> c \<le> 0xD6 \<or> 0xD8 \<le> c \<and> c \<le> 0xDE"
  | (dot) "lower_latin c = [0x69, 0x307]"
  | (y) "lower_latin c = [0xFF]"
  | (ev) "lower_latin c = [c + 1]" "0x100 \<le> c \<and> c \<le> 0x137 \<or> 0x14A \<le> c \<and> c \<le> 0x177"
  | (od) "lower_latin c = [c + 1]" "0x139 \<le> c \<and> c \<le> 0x148 \<or> 0x179 \<le> c \<and> c \<le> 0x17E"
  | (id) "lower_latin c = [c]"
    using lower_latin_cases[of c] by blast
  then show ?thesis
    using assms by cases auto
qed

lemma isword_latin_eq: "c \<le> 0x17F \<Longrightarrow> isword U c = isword_latin c"
  by (simp add: isword_def isalnum_def isword_latin_def)

lemma isword_above: "\<not> c \<le> 0x17F \<Longrightarrow> isword U c = (\<not> isspace c \<and> alnum_above U c)"
  by (auto simp: isword_def isalnum_def)

lemma isword_not_isspace: "isword U c \<Longrightarrow> \<not> isspace c"
  by (cases "c \<le> 0x17F") (simp_all add: isword_latin_eq isword_above isword_latin_not_isspace)

lemma lower_cp_latin: "c \<le> 0x17F \<Longrightarrow> lower_cp U c = lower_latin c"
  by (simp add: lower_cp_def)

lemma lower_cp_space: "isspace c \<Longrightarrow> lower_cp U c = [c]"
  by (simp add: lower_cp_def lower_latin_space)

lemma isspace_not_sigma: "isspace c \<Longrightarrow> c \<noteq> 0x3A3"
  using isspace_bounds[of c] by auto

lemma lower_cp_fixed_not_upper:
  assumes "lower_cp U d = [d]"
  shows "\<not> isupper_ascii d"
proof
  assume "isupper_ascii d"
  then have r: "0x41 \<le> d \<and> d \<le> 0x5A"
    by (simp add: isupper_ascii_def)
  then have "lower_cp U d = [d + 32]"
    by (simp add: lower_cp_def lower_latin_def)
  with assms show False by simp
qed

lemma lower_cp_130: "lower_cp U 0x130 = [0x69, 0x307]"
  by (simp add: lower_cp_def lower_latin_def)

lemma isword_69: "isword U 0x69"
  by (simp add: isword_def isalnum_def isalnum_latin_def)

lemma lower_from_chars:
  "d \<in> set (lower_from U b s) \<Longrightarrow>
     \<exists>c\<in>set s. (c = 0x3A3 \<and> (d = 0x3C2 \<or> d = 0x3C3)) \<or> (c \<noteq> 0x3A3 \<and> d \<in> set (lower_cp U c))"
proof (induction s arbitrary: b)
  case Nil
  then show ?case by simp
next
  case (Cons c s)
  from Cons.prems consider
    (here) "d \<in> set (if c = 0x3A3 then [if final_sigma U b s then 0x3C2 else 0x3C3] else lower_cp U c)"
    | (later) "d \<in> set (lower_from U (c # b) s)"
    by auto
  then show ?case
  proof cases
    case here
    then have "(c = 0x3A3 \<and> (d = 0x3C2 \<or> d = 0x3C3)) \<or> (c \<noteq> 0x3A3 \<and> d \<in> set (lower_cp U c))"
      by (auto split: if_splits)
    then show ?thesis by auto
  next
    case later
    from Cons.IH[OF this] show ?thesis by auto
  qed
qed

lemma str_lower_chars:
  "d \<in> set (str_lower U s) \<Longrightarrow>
     \<exists>c\<in>set s. (c = 0x3A3 \<and> (d = 0x3C2 \<or> d = 0x3C3)) \<or> (c \<noteq> 0x3A3 \<and> d \<in> set (lower_cp U c))"
  unfolding str_lower_def by (rule lower_from_chars)

lemma lower_from_fixed:
  "\<forall>c\<in>set s. c \<noteq> 0x3A3 \<and> lower_cp U c = [c] \<Longrightarrow> lower_from U b s = s"
  by (induction s arbitrary: b) simp_all

lemma str_lower_fixed:
  "\<forall>c\<in>set s. c \<noteq> 0x3A3 \<and> lower_cp U c = [c] \<Longrightarrow> str_lower U s = s"
  unfolding str_lower_def by (rule lower_from_fixed)

lemma not_space_mid: "0x180 \<le> c \<Longrightarrow> c < 0x1680 \<Longrightarrow> \<not> isspace c"
  using isspace_bounds[of c] by auto

lemma sample_alnum:
  "alnum_above sample_db c \<longleftrightarrow>
     (0x391 \<le> c \<and> c \<le> 0x3A1) \<or> (0x3A3 \<le> c \<and> c \<le> 0x3A9) \<or>
     (0x3B1 \<le> c \<and> c \<le> 0x3C9) \<or> (0x410 \<le> c \<and> c \<le> 0x44F)"
  by (simp add: sample_db_def)

lemma sample_lower:
  "lower_above sample_db c =
     (if (0x391 \<le> c \<and> c \<le> 0x3A1) \<or> (0x3A3 \<le> c \<and> c \<le> 0x3A9) \<or> (0x410 \<le> c \<and> c \<le> 0x42F)
      then [c + 32] else [c])"
  by (simp add: sample_db_def)

lemma sample_word_above:
  assumes "\<not> c \<le> 0x17F"
  shows "isword sample_db c \<longleftrightarrow>
     (0x391 \<le> c \<and> c \<le> 0x3A1) \<or> (0x3A3 \<le> c \<and> c \<le> 0x3A9) \<or>
     (0x3B1 \<le> c \<and> c \<le> 0x3C9) \<or> (0x410 \<le> c \<and> c \<le> 0x44F)"
proof -
  have "alnum_above sample_db c \<Longrightarrow> \<not> isspace c"
    using not_space_mid[of c] by (auto simp: sample_alnum)
  with assms show ?thesis
    by (auto simp: isword_above sample_alnum)
qed

lemma sample_lower_above:
  assumes "\<not> c \<le> 0x17F"
  shows "lower_cp sample_db c =
     (if (0x391 \<le> c \<and> c \<le> 0x3A1) \<or> (0x3A3 \<le> c \<and> c \<le> 0x3A9) \<or> (0x410 \<le> c \<and> c \<le> 0x42F)
      then [c + 32] else [c])"
proof (cases "isspace c")
  case True
  then have "\<not> (0x180 \<le> c \<and> c < 0x1680)"
    using not_space_mid[of c] by blast
  with True assms show ?thesis
    by (auto simp: lower_cp_def)
next
  case False
  with assms show ?thesis
    by (simp add: lower_cp_def sample_lower)
qed

lemma sample_lower_word:
  assumes "isword sample_db c" and "c \<noteq> 0x130" and "d \<in> set (lower_cp sample_db c)"
  shows "isword sample_db d"
proof (cases "c \<le> 0x17F")
  case True
  with assms have "isword_latin c" and "d \<in> set (lower_latin c)"
    by (simp_all add: isword_latin_eq lower_cp_latin)
  with assms(2) have "isword_latin d"
    using lower_latin_isword[of c d] by blast
  moreover from this have "d \<le> 0x17F"
    using isword_latin_bounds[of d] by simp
  ultimately show ?thesis
    by (simp add: isword_latin_eq)
next
  case False
  with assms(1) have r: "(0x391 \<le> c \<and> c \<le> 0x3A1) \<or> (0x3A3 \<le> c \<and> c \<le> 0x3A9) \<or>
     (0x3B1 \<le> c \<and> c \<le> 0x3C9) \<or> (0x410 \<le> c \<and> c \<le> 0x44F)"
    by (simp add: sample_word_above)
  from assms(3) False have "d = c + 32 \<and> ((0x391 \<le> c \<and> c \<le> 0x3A1) \<or> (0x3A3 \<le> c \<and> c \<le> 0x3A9) \<or>
      (0x410 \<le> c \<and> c \<le> 0x42F)) \<or> d = c"
    by (auto simp: sample_lower_above split: if_splits)
  then have "\<not> d \<le> 0x17F \<and> ((0x391 \<le> d \<and> d \<le> 0x3A1) \<or> (0x3A3 \<le> d \<and> d \<le> 0x3A9) \<or>
     (0x3B1 \<le> d \<and> d \<le> 0x3C9) \<or> (0x410 \<le> d \<and> d \<le> 0x44F))"
    using r False by auto
  then show ?thesis
    by (simp add: sample_word_above)
qed

lemma sample_lower_idem:
  assumes "d \<in> set (lower_cp sample_db c)"
  shows "lower_cp sample_db d = [d] \<and> d \<noteq> 0x3A3"
proof (cases "c \<le> 0x17F")
  case True
  with assms have in_l: "d \<in> set (lower_latin c)"
    by (simp add: lower_cp_latin)
  from lower_latin_range[OF True in_l] show ?thesis
  proof
    assume "d \<le> 0x17F"
    with lower_latin_idem[OF in_l] show ?thesis
      by (simp add: lower_cp_latin)
  next
    assume "d = 0x307"
    then show ?thesis
      by (simp add: sample_lower_above)
  qed
next
  case False
  from assms False have "d = c + 32 \<and> ((0x391 \<le> c \<and> c \<le> 0x3A1) \<or> (0x3A3 \<le> c \<and> c \<le> 0x3A9) \<or>
      (0x410 \<le> c \<and> c \<le> 0x42F)) \<or>
      d = c \<and> \<not> ((0x391 \<le> c \<and> c \<le> 0x3A1) \<or> (0x3A3 \<le> c \<and> c \<le> 0x3A9) \<or> (0x410 \<le> c \<and> c \<le> 0x42F))"
    by (auto simp: sample_lower_above split: if_splits)
  then have "\<not> d \<le> 0x17F \<and>
      \<not> ((0x391 \<le> d \<and> d \<le> 0x3A1) \<or> (0x3A3 \<le> d \<and> d \<le> 0x3A9) \<or> (0x410 \<le> d \<and> d \<le> 0x42F))"
    using False by auto
  then show ?thesis
    by (auto simp: sample_lower_above)
qed

lemma lower_closed_sample: "lower_closed sample_db"
proof -
  have "isword sample_db 0x3C2" "isword sample_db 0x3C3"
    by (simp_all add: sample_word_above)
  moreover have "lower_cp sample_db 0x3C2 = [0x3C2]" "lower_cp sample_db 0x3C3 = [0x3C3]"
    by (simp_all add: sample_lower_above)
  ultimately show ?thesis
    unfolding lower_closed_def
    using sample_lower_word sample_lower_idem by blast
qed

lemma set_str_join:
  "c \<in> set (str_join sep ws) \<Longrightarrow> c \<in> set sep \<or> (\<exists>w\<in>set ws. c \<in> set w)"
  by (induction sep ws rule: str_join.induct) auto

lemma normalize_token_chars:
  assumes "t \<in> set (normalize U s)" and "d \<in> set t"
  shows "\<not> isspace d \<and>
    (\<exists>c\<in>set s. isword U c \<and>
       ((c = 0x3A3 \<and> (d = 0x3C2 \<or> d = 0x3C3)) \<or> (c \<noteq> 0x3A3 \<and> d \<in> set (lower_cp U c))))"
proof -
  from assms(1) have "t \<in> set (runs isspace (str_lower U (re_sub_nonword U s)))"
    by (simp add: normalize_eq str_split_def)
  from runs_word[OF this] assms(2)
  have nsp: "\<not> isspace d" and "d \<in> set (str_lower U (re_sub_nonword U s))"
    by auto
  from str_lower_chars[OF this(2)] obtain c
    where c: "c \<in> set s" "isword U c \<or> isspace c"
      "(c = 0x3A3 \<and> (d = 0x3C2 \<or> d = 0x3C3)) \<or> (c \<noteq> 0x3A3 \<and> d \<in> set (lower_cp U c))"
    by (auto simp: re_sub_nonword_def)
  have "isword U c"
  proof (rule ccontr)
    assume "\<not> isword U c"
    with c(2) have sp: "isspace c" by simp
    with c(3) have "d \<in> set (lower_cp U c)"
      using isspace_not_sigma by blast
    with sp nsp show False by (simp add: lower_cp_space)
  qed
  with c nsp show ?thesis by blast
qed

lemma normalize_no_stopword: "t \<in> set (normalize U s) \<Longrightarrow> t \<notin> set STOPWORDS"
  by (simp add: normalize_eq)

lemma normalize_nonempty: "t \<in> set (normalize U s) \<Longrightarrow> t \<noteq> []"
  using runs_word[of t isspace "str_lower U (re_sub_nonword U s)"]
  by (simp add: normalize_eq str_split_def)

lemma normalize_fixpoint:
  assumes ne: "\<forall>t\<in>set ts. t \<noteq> [] \<and> t \<notin> set STOPWORDS"
    and ch: "\<forall>t\<in>set ts. \<forall>c\<in>set t. isword U c \<and> lower_cp U c = [c] \<and> c \<noteq> 0x3A3"
  shows "normalize U (str_join (py '' '') ts) = ts"
proof -
  let ?j = "str_join [32] ts"
  have low32: "lower_cp U 32 = [32]"
    by (simp add: lower_cp_space isspace_32)
  have chars: "\<forall>c\<in>set ?j. (isword U c \<or> isspace c) \<and> c \<noteq> 0x3A3 \<and> lower_cp U c = [c]"
  proof
    fix c
    assume "c \<in> set ?j"
    from set_str_join[OF this] have "c = 32 \<or> (\<exists>t\<in>set ts. c \<in> set t)"
      by simp
    then show "(isword U c \<or> isspace c) \<and> c \<noteq> 0x3A3 \<and> lower_cp U c = [c]"
    proof
      assume "c = 32"
      with low32 isspace_32 show ?thesis by simp
    next
      assume "\<exists>t\<in>set ts. c \<in> set t"
      then obtain t where "t \<in> set ts" "c \<in> set t" by blast
      with ch show ?thesis by blast
    qed
  qed
  then have "re_sub_nonword U ?j = ?j"
    unfolding re_sub_nonword_def by (intro filter_True) blast
  moreover from chars have "str_lower U ?j = ?j"
    by (intro str_lower_fixed) blast
  moreover have "runs isspace ?j = ts"
  proof -
    have "\<forall>w\<in>set ts. w \<noteq> [] \<and> (\<forall>c\<in>set w. \<not> isspace c)"
      using ne ch isword_not_isspace by blast
    with isspace_32 show ?thesis
      by (rule runs_join[of isspace 32 ts])
  qed
  moreover have "filter (\<lambda>word. word \<notin> set STOPWORDS) ts = ts"
    using ne by (simp add: filter_id_conv)
  ultimately show ?thesis
    by (simp add: normalize_eq str_split_def py_space)
qed

lemma token_chars_closed:
  assumes "lower_closed U" and "0x130 \<notin> set s"
    and "t \<in> set (normalize U s)" and "d \<in> set t"
  shows "isword U d \<and> lower_cp U d = [d] \<and> d \<noteq> 0x3A3"
proof -
  from normalize_token_chars[OF assms(3,4)] obtain c
    where c: "c \<in> set s" "isword U c"
      "(c = 0x3A3 \<and> (d = 0x3C2 \<or> d = 0x3C3)) \<or> (c \<noteq> 0x3A3 \<and> d \<in> set (lower_cp U c))"
    by blast
  with assms(2) have ne: "c \<noteq> 0x130" by auto
  from assms(1) have w: "\<And>c d. isword U c \<Longrightarrow> c \<noteq> 0x130 \<Longrightarrow> d \<in> set (lower_cp U c) \<Longrightarrow> isword U d"
    and f: "\<And>c d. d \<in> set (lower_cp U c) \<Longrightarrow> lower_cp U d = [d] \<and> d \<noteq> 0x3A3"
    and sg: "isword U 0x3C2" "isword U 0x3C3" "lower_cp U 0x3C2 = [0x3C2]" "lower_cp U 0x3C3 = [0x3C3]"
    unfolding lower_closed_def by blast+
  from c(3) show ?thesis
  proof
    assume "c = 0x3A3 \<and> (d = 0x3C2 \<or> d = 0x3C3)"
    with sg show ?thesis by auto
  next
    assume "c \<noteq> 0x3A3 \<and> d \<in> set (lower_cp U c)"
    with w[OF c(2) ne] f show ?thesis by blast
  qed
qed



lemmas eval_text = py_def isspace_def isalnum_latin_def isalnum_def isword_def lower_latin_def
  lower_cp_def final_sigma_def str_lower_def re_sub_nonword_def str_split_def STOPWORDS_def
  clean_text_def normalize_def sample_db_def



text \<open>
  C6, as the code has it. Normalizing the capital I with dot above (U+0130) gives the
  token i + U+0307; normalizing that token strips the combining dot, and the remaining
  i is a stop word. So normalization is not idempotent on every string.
\<close>

theorem normalize_idempotent_counterexample:
  "normalize sample_db (str_join (py '' '') (normalize sample_db [0x130])) \<noteq>
   normalize sample_db [0x130]"
  by (simp add: eval_text)

text \<open>
  C6, amended. For every string without U+0130, rejoining the tokens with single
  spaces and normalizing again gives the same tokens, in every database in which lower
  case is closed (as it is in the Unicode database).
\<close>

theorem normalize_idempotent:
  assumes "lower_closed U" and "0x130 \<notin> set s"
  shows "normalize U (str_join (py '' '') (normalize U s)) = normalize U s"
proof (rule normalize_fixpoint)
  show "\<forall>t\<in>set (normalize U s). t \<noteq> [] \<and> t \<notin> set STOPWORDS"
    using normalize_nonempty normalize_no_stopword by blast
  show "\<forall>t\<in>set (normalize U s). \<forall>c\<in>set t. isword U c \<and> lower_cp U c = [c] \<and> c \<noteq> 0x3A3"
    using token_chars_closed[OF assms] by blast
qed

theorem normalize_idempotent_witness:
  "lower_closed sample_db \<and>
   0x130 \<notin> set (py ''The Cats, '' @ [0x41A, 0x43E, 0x422, 0x20, 0x39F, 0x394, 0x39F, 0x3A3]) \<and>
   normalize sample_db (py ''The Cats, '' @ [0x41A, 0x43E, 0x422, 0x20, 0x39F, 0x394, 0x39F, 0x3A3]) =
     [py ''cats'', [0x43A, 0x43E, 0x442], [0x3BF, 0x3B4, 0x3BF, 0x3C2]] \<and>
   normalize sample_db (str_join (py '' '')
       (normalize sample_db (py ''The Cats, '' @ [0x41A, 0x43E, 0x422, 0x20, 0x39F, 0x394, 0x39F, 0x3A3]))) =
     normalize sample_db (py ''The Cats, '' @ [0x41A, 0x43E, 0x422, 0x20, 0x39F, 0x394, 0x39F, 0x3A3])"
proof -
  let ?s = "py ''The Cats, '' @ [0x41A, 0x43E, 0x422, 0x20, 0x39F, 0x394, 0x39F, 0x3A3]"
  have h: "0x130 \<notin> set ?s"
    by (simp add: py_def)
  have n: "normalize sample_db ?s = [py ''cats'', [0x43A, 0x43E, 0x442], [0x3BF, 0x3B4, 0x3BF, 0x3C2]]"
    by (simp add: eval_text)
  from normalize_idempotent[OF lower_closed_sample h] h n lower_closed_sample show ?thesis
    by blast
qed

text \<open>
  C10, as the code has it. The token of U+0130 holds the combining dot above U+0307,
  which is not a word character.
\<close>

theorem normalize_word_chars_counterexample:
  "[0x69, 0x307] \<in> set (normalize sample_db [0x130]) \<and> \<not> isword sample_db 0x307"
  by (simp add: eval_text)

text \<open>
  C10, amended. In every database, every token of every string is non-empty, holds no
  white space and is not a stop word. Where lower case is closed (as it is in the Unicode
  database), each of its characters is a word character or the combining dot above
  U+0307 (which lower-casing U+0130 leaves), and none is an upper-case ASCII letter.
\<close>

theorem normalize_token_shape:
  assumes "t \<in> set (normalize U s)"
  shows "t \<noteq> [] \<and> t \<notin> set STOPWORDS \<and> (\<forall>d\<in>set t. \<not> isspace d) \<and>
    (lower_closed U \<longrightarrow> (\<forall>d\<in>set t. (isword U d \<or> d = 0x307) \<and> \<not> isupper_ascii d))"
proof (intro conjI ballI impI)
  show "t \<noteq> []" using assms by (rule normalize_nonempty)
  show "t \<notin> set STOPWORDS" using assms by (rule normalize_no_stopword)
next
  fix d
  assume "d \<in> set t"
  from normalize_token_chars[OF assms this] show "\<not> isspace d" by blast
next
  fix d
  assume lc: "lower_closed U" and d: "d \<in> set t"
  from normalize_token_chars[OF assms d] obtain c
    where c: "isword U c"
      "(c = 0x3A3 \<and> (d = 0x3C2 \<or> d = 0x3C3)) \<or> (c \<noteq> 0x3A3 \<and> d \<in> set (lower_cp U c))"
    by blast
  from lc have w: "\<And>c d. isword U c \<Longrightarrow> c \<noteq> 0x130 \<Longrightarrow> d \<in> set (lower_cp U c) \<Longrightarrow> isword U d"
    and f: "\<And>c d. d \<in> set (lower_cp U c) \<Longrightarrow> lower_cp U d = [d] \<and> d \<noteq> 0x3A3"
    and sg: "isword U 0x3C2" "isword U 0x3C3" "lower_cp U 0x3C2 = [0x3C2]" "lower_cp U 0x3C3 = [0x3C3]"
    unfolding lower_closed_def by blast+
  from c(2) have "(isword U d \<or> d = 0x307) \<and> lower_cp U d = [d]"
  proof
    assume "c = 0x3A3 \<and> (d = 0x3C2 \<or> d = 0x3C3)"
    with sg show ?thesis by auto
  next
    assume a: "c \<noteq> 0x3A3 \<and> d \<in> set (lower_cp U c)"
    show ?thesis
    proof (cases "c = 0x130")
      case True
      with a have "d = 0x69 \<or> d = 0x307"
        by (simp add: lower_cp_130)
      with a f isword_69 show ?thesis by blast
    next
      case False
      with a w[OF c(1) False] f show ?thesis by blast
    qed
  qed
  then show "isword U d \<or> d = 0x307" and "\<not> isupper_ascii d"
    using lower_cp_fixed_not_upper by blast+
qed

theorem normalize_token_shape_witness:
  "[0x43A, 0x43E, 0x442] \<in> set (normalize sample_db (py ''The DOGS, '' @ [0x41A, 0x43E, 0x422])) \<and>
   lower_closed sample_db \<and>
   [0x43A, 0x43E, 0x442] \<noteq> [] \<and> [0x43A, 0x43E, 0x442] \<notin> set STOPWORDS \<and>
   list_all (\<lambda>d. \<not> isspace d \<and> (isword sample_db d \<or> d = 0x307) \<and> \<not> isupper_ascii d)
     [0x43A, 0x43E, 0x442]"
proof -
  have h: "[0x43A, 0x43E, 0x442] \<in> set (normalize sample_db (py ''The DOGS, '' @ [0x41A, 0x43E, 0x422]))"
    by (simp add: eval_text)
  from normalize_token_shape[OF h] lower_closed_sample h show ?thesis
    unfolding list_all_iff by blast
qed



















lemma index_append_map_of:
  "map_of (index_append w p idx) =
     (map_of idx)(w \<mapsto> (case map_of idx w of None \<Rightarrow> [p] | Some v \<Rightarrow> v @ [p]))"
  by (induction w p idx rule: index_append.induct) (auto simp: fun_upd_twist)

lemma index_get_append:
  "set (index_get (index_append w p idx) t) =
     set (index_get idx t) \<union> (if t = w then {p} else {})"
  by (simp add: index_get_def index_append_map_of split: option.split)

lemma index_get_words:
  "set (index_get (fold (\<lambda>word idx. index_append word p idx) ws idx) t) =
     set (index_get idx t) \<union> (if t \<in> set ws then {p} else {})"
  by (induction ws arbitrary: idx) (auto simp: index_get_append)

lemma index_get_rows:
  "set (index_get (index_rows U i rows idx) t) =
     set (index_get idx t) \<union>
     {d. i < d \<and> d \<le> i + length rows \<and> t \<in> set (normalize U (content (rows ! (d - i - 1))))}"
proof (induction rows arbitrary: i idx)
  case Nil
  show ?case by auto
next
  case (Cons row rows)
  let ?P = "\<lambda>r. t \<in> set (normalize U (content r))"
  have shift: "{d. i < d \<and> d \<le> i + length (row # rows) \<and> ?P ((row # rows) ! (d - i - 1))} =
      (if ?P row then {i + 1} else {}) \<union>
      {d. i + 1 < d \<and> d \<le> i + 1 + length rows \<and> ?P (rows ! (d - (i + 1) - 1))}"
    (is "?L = ?R")
  proof (rule set_eqI)
    fix d
    show "d \<in> ?L \<longleftrightarrow> d \<in> ?R"
    proof (cases "d = i + 1")
      case True
      then show ?thesis by simp
    next
      case False
      show ?thesis
      proof (cases "i < d")
        case True
        with False have "d = i + 2 + (d - i - 2)"
          by simp
        then obtain m where m: "d = i + 2 + m" ..
        then show ?thesis by simp
      next
        case False
        then show ?thesis by simp
      qed
    qed
  qed
  show ?case
    unfolding shift
    by (simp add: Cons.IH index_get_words normalize_def Un_assoc)
qed

lemma post_lists_entry:
  assumes "(t, ids) \<in> set (post_lists U k df)"
  shows "ids = sort (remdups (index_get (inverted_index U df) t)) \<and>
    (\<exists>c. (t, c) \<in> set (common_words U k df))"
  using assms
  by (auto simp: post_lists_def index_get_def split: option.splits)

text \<open>
  C1. Every posting list of the built index is strictly ascending, hence without
  duplicates, and holds exactly the 1-based positions of the documents whose normalized
  title and body contain the term.
\<close>

theorem posting_list_exact:
  assumes "(t, ids) \<in> set (post_lists U k df)"
  shows "sorted_wrt (<) ids \<and>
    set ids = {d. 1 \<le> d \<and> d \<le> length df \<and> t \<in> set (normalize U (content (df ! (d - 1))))}"
proof -
  from post_lists_entry[OF assms]
  have ids: "ids = sort (remdups (index_get (inverted_index U df) t))"
    by simp
  have "set (index_get (inverted_index U df) t) =
      {d. 0 < d \<and> d \<le> 0 + length df \<and> t \<in> set (normalize U (content (df ! (d - 0 - 1))))}"
    unfolding inverted_index_def index_get_rows by (simp add: index_get_def)
  also have "\<dots> = {d. 1 \<le> d \<and> d \<le> length df \<and> t \<in> set (normalize U (content (df ! (d - 1))))}"
    by auto
  finally show ?thesis
    by (simp add: ids strict_sorted_iff)
qed

lemmas eval_index = content_def Counter_def most_common_def inverted_index_def common_words_def
  post_lists_def word_post_data_def build_inverse_index_with_locations_def example_corpus_def
  mixed_corpus_def

theorem posting_list_exact_witness:
  "post_lists sample_db 15 mixed_corpus =
     [(py ''cats'', [1]), (py ''x'', [1]), ([0x43A, 0x43E, 0x442], [2]), ([0x44F], [2])] \<and>
   sorted_wrt (<) [2 :: nat] \<and>
   set [2] = {d. 1 \<le> d \<and> d \<le> length mixed_corpus \<and>
      [0x43A, 0x43E, 0x442] \<in> set (normalize sample_db (content (mixed_corpus ! (d - 1))))}"
proof -
  have p: "post_lists sample_db 15 mixed_corpus =
     [(py ''cats'', [1]), (py ''x'', [1]), ([0x43A, 0x43E, 0x442], [2]), ([0x44F], [2])]"
    by (simp add: eval_text eval_index)
  then have h: "([0x43A, 0x43E, 0x442], [2]) \<in> set (post_lists sample_db 15 mixed_corpus)"
    by simp
  from posting_list_exact[OF h] p show ?thesis
    by blast
qed

text \<open>
  C7, as the code has it. In the stream of the three documents \<open>funny\<close>, \<open>cats\<close> and
  \<open>dogs\<close> all occur twice and \<open>funny\<close> occurs first, so the two most common terms
  are \<open>funny\<close> and \<open>cats\<close>, not \<open>cats\<close> and \<open>dogs\<close>.
\<close>

theorem example_top2_counterexample:
  "map fst (common_words sample_db 2 example_corpus) = [py ''funny'', py ''cats''] \<and>
   map fst (common_words sample_db 2 example_corpus) \<noteq> [py ''cats'', py ''dogs'']"
  by (simp add: eval_text eval_index)

text \<open>
  C7, amended. With K = 2 the ranker returns \<open>funny\<close> (2) then \<open>cats\<close> (2), and the
  index maps \<open>funny\<close> to [1, 2] and \<open>cats\<close> to [1, 3]. With the source's K = 15 all six
  terms are indexed, \<open>cats\<close> with 1,3 and \<open>dogs\<close> with 2,3. The texts are ASCII, so
  this holds in every database.
\<close>

theorem example_scenario:
  "common_words U 2 example_corpus = [(py ''funny'', 2), (py ''cats'', 2)] \<and>
   post_lists U 2 example_corpus = [(py ''funny'', [1, 2]), (py ''cats'', [1, 3])] \<and>
   build_inverse_index_with_locations U example_corpus =
     [(py ''funny'', py ''1,2''), (py ''cats'', py ''1,3''), (py ''dogs'', py ''2,3''),
      (py ''jumping'', py ''1''), (py ''running'', py ''2''), (py ''playing'', py ''3'')]"
proof (intro conjI)
  show "common_words U 2 example_corpus = [(py ''funny'', 2), (py ''cats'', 2)]"
    by (simp add: eval_text eval_index)
  show "post_lists U 2 example_corpus = [(py ''funny'', [1, 2]), (py ''cats'', [1, 3])]"
    by (simp add: eval_text eval_index)
  show "build_inverse_index_with_locations U example_corpus =
     [(py ''funny'', py ''1,2''), (py ''cats'', py ''1,3''), (py ''dogs'', py ''2,3''),
      (py ''jumping'', py ''1''), (py ''running'', py ''2''), (py ''playing'', py ''3'')]"
    by (simp add: eval_text eval_index str_nat.simps)
qed

lemma clean_text_join: "clean_text U s = str_join [32] (normalize U s)"
  by (simp add: normalize_eq clean_text_def py_space)

lemma clean_text_chars:
  assumes "d \<in> set (clean_text U s)"
  shows "d = 32 \<or> (\<exists>t\<in>set (normalize U s). d \<in> set t)"
  using set_str_join[of d "[32]" "normalize U s"] assms by (simp add: clean_text_join)

lemma analyze_clean_text:
  assumes "lower_closed U" and "0x130 \<notin> set s"
  shows "analyze U (clean_text U s) = filter (\<lambda>t. 2 \<le> length t) (normalize U s)"
proof -
  have low32: "lower_cp U 32 = [32]"
    by (simp add: lower_cp_space isspace_32)
  have nw32: "\<not> isword U 32"
    using isword_not_isspace[of U 32] isspace_32 by blast
  have chars: "\<forall>d\<in>set (clean_text U s).
      d \<noteq> 0x3A3 \<and> lower_cp U d = [d] \<and> ((\<not> isword U d) = isspace d)"
  proof
    fix d
    assume "d \<in> set (clean_text U s)"
    from clean_text_chars[OF this]
    show "d \<noteq> 0x3A3 \<and> lower_cp U d = [d] \<and> ((\<not> isword U d) = isspace d)"
    proof
      assume "d = 32"
      with low32 nw32 isspace_32 show ?thesis by simp
    next
      assume "\<exists>t\<in>set (normalize U s). d \<in> set t"
      then obtain t where "t \<in> set (normalize U s)" "d \<in> set t" by blast
      from token_chars_closed[OF assms this] isword_not_isspace[of U d]
      show ?thesis by blast
    qed
  qed
  then have "str_lower U (clean_text U s) = clean_text U s"
    by (intro str_lower_fixed) blast
  moreover from chars
  have "runs (\<lambda>c. \<not> isword U c) (clean_text U s) = runs isspace (clean_text U s)"
    by (intro runs_cong) blast
  ultimately show ?thesis
    by (simp add: analyze_def normalize_def str_split_def)
qed


lemma set_feature_names: "set (feature_names U docs) = (\<Union>d\<in>set docs. set (analyze U d))"
  by (simp add: feature_names_def)


lemma matrix_terms_eq:
  "matrix_terms U df = Inr ts \<longleftrightarrow>
     feature_names U (cleaned_content U df) \<noteq> [] \<and> ts = feature_names U (cleaned_content U df)"
  by (auto simp: matrix_terms_def fit_transform_def)







lemmas eval_tfidf = cleaned_content_def matrix_terms_eq feature_names_def analyze_def

lemma mixed_terms:
  "matrix_terms sample_db mixed_corpus = Inr [py ''cats'', [0x43A, 0x43E, 0x442]]"
  by (simp add: eval_tfidf eval_text mixed_corpus_def content_def)





text \<open>
  C4, as the code has it. The one-character token \<open>x\<close> of a document is no column of
  the matrix; and the token that U+0130 followed by \<open>x\<close> normalizes to (i, U+0307, x)
  is no column either, because the vectorizer splits it at the combining dot.
\<close>

theorem matrix_terms_counterexample:
  "py ''x'' \<in> set (normalize sample_db (content \<lparr>Title = py ''x'', Body = py ''cats''\<rparr>)) \<and>
   matrix_terms sample_db [\<lparr>Title = py ''x'', Body = py ''cats''\<rparr>] = Inr [py ''cats''] \<and>
   [0x69, 0x307, 0x78] \<in>
     set (normalize sample_db (content \<lparr>Title = [0x130, 0x78], Body = py ''cats''\<rparr>)) \<and>
   matrix_terms sample_db [\<lparr>Title = [0x130, 0x78], Body = py ''cats''\<rparr>] = Inr [py ''cats'']"
  by (simp add: eval_tfidf eval_text content_def)

text \<open>
  C4, amended. When the matrix is built and no text of the corpus holds U+0130, the
  columns are exactly the distinct tokens of two or more characters of the normalized
  documents, whatever their frequency; they are sorted and without duplicates. This holds
  in every database in which lower case is closed (as it is in the Unicode database).
\<close>

theorem matrix_terms_tokens:
  assumes "lower_closed U"
    and "matrix_terms U df = Inr ts"
    and "\<forall>row\<in>set df. 0x130 \<notin> set (content row)"
  shows "set ts = {t. 2 \<le> length t \<and> (\<exists>row\<in>set df. t \<in> set (normalize U (content row)))} \<and>
    sorted ts \<and> distinct ts"
proof -
  from assms(2) have ts: "ts = feature_names U (cleaned_content U df)"
    by (simp add: matrix_terms_eq)
  have "set ts = (\<Union>row\<in>set df. set (analyze U (clean_text U (content row))))"
    by (simp add: ts set_feature_names cleaned_content_def)
  also have "\<dots> = (\<Union>row\<in>set df. set (filter (\<lambda>t. 2 \<le> length t) (normalize U (content row))))"
    using assms(3) by (simp add: analyze_clean_text[OF assms(1)])
  also have "\<dots> = {t. 2 \<le> length t \<and> (\<exists>row\<in>set df. t \<in> set (normalize U (content row)))}"
    by auto
  finally show ?thesis
    by (simp add: ts feature_names_def)
qed

theorem matrix_terms_tokens_witness:
  "lower_closed sample_db \<and>
   matrix_terms sample_db mixed_corpus = Inr [py ''cats'', [0x43A, 0x43E, 0x442]] \<and>
   list_all (\<lambda>row. 0x130 \<notin> set (content row)) mixed_corpus \<and>
   set [py ''cats'', [0x43A, 0x43E, 0x442]] =
     {t. 2 \<le> length t \<and> (\<exists>row\<in>set mixed_corpus. t \<in> set (normalize sample_db (content row)))}"
proof -
  have d: "\<forall>row\<in>set mixed_corpus. 0x130 \<notin> set (content row)"
    by (simp add: mixed_corpus_def content_def py_def)
  from matrix_terms_tokens[OF lower_closed_sample mixed_terms d] mixed_terms d lower_closed_sample
  show ?thesis
    unfolding list_all_iff by blast
qed

text \<open>
  C5, as the code has it. On the empty corpus the vectorizer finds no token and raises
  \<open>ValueError\<close>; no matrix is built and no query term is scored.
\<close>

theorem empty_corpus_counterexample:
  "calculate_tfidf sample_db [] (py ''Funny cats'') = Inl ValueError"
  by (simp add: calculate_tfidf_def cleaned_content_def fit_transform_def feature_names_def)

text \<open>
  C5, amended. On the empty corpus the ranker returns the empty sequence and the index
  builder the empty index, for every K; the vectorizer refuses the corpus with
  \<open>ValueError\<close>, and the scorer passes that error on for every query. This holds in
  every database.
\<close>

theorem empty_corpus:
  "topTerms [] k = [] \<and> common_words U k [] = [] \<and> post_lists U k [] = [] \<and>
   build_inverse_index_with_locations U [] = [] \<and>
   matrix_terms U [] = Inl ValueError \<and> calculate_tfidf U [] query = Inl ValueError"
proof -
  have "clean_text U [] = []"
    by (simp add: clean_text_def re_sub_nonword_def str_lower_def str_split_def)
  then have c: "common_words U k [] = []" for k
    by (simp add: common_words_def Counter_def most_common_def str_split_def)
  then have p: "post_lists U k [] = []" for k
    by (simp add: post_lists_def)
  have "fit_transform U (cleaned_content U []) = Inl ValueError"
    by (simp add: cleaned_content_def fit_transform_def feature_names_def)
  then show ?thesis
    using c p
    by (simp add: topTerms_def Counter_def most_common_def build_inverse_index_with_locations_def
        word_post_data_def matrix_terms_def calculate_tfidf_def)
qed

end
